theory Spec2Isabelle
  imports Complex_Main "HOL-Library.Multiset"
begin

section \<open>Dates\<close>

text \<open>
  A JavaScript \<open>Date\<close> holds a time value: the number of milliseconds since the epoch.
  The calendar fields (\<open>getDate\<close>, \<open>getHours\<close>, ...) are read and set in local time. The
  language converts with the offset of the runtime's zone, which may change with the
  date (daylight saving): \<open>LocalTZA(t, true)\<close> is the offset in force at the instant \<open>t\<close>,
  \<open>LocalTZA(t, false)\<close> the offset by which the local time \<open>t\<close> is read (the one before the
  change, for a local time that a change skips or repeats). A zone is these two functions,
  in milliseconds. Invalid dates and the range limit of time values are not modelled.
  Every \<open>Date\<close> the program builds is a fresh object (\<open>new Date()\<close>, \<open>new Date(d)\<close>) that
  is mutated only before it is stored, so dates are plain values here.
\<close>

type_synonym date = int

record zone =
  offsetAt :: "int \<Rightarrow> int"
  offsetAtLocal :: "int \<Rightarrow> int"

definition msPerSecond :: int where "msPerSecond = 1000"
definition msPerMinute :: int where "msPerMinute = 60000"
definition msPerHour :: int where "msPerHour = 3600000"
definition msPerDay :: int where "msPerDay = 86400000"

text \<open>\<open>LocalTime(t)\<close> and \<open>UTC(t)\<close> of the language.\<close>

definition localTime :: "zone \<Rightarrow> date \<Rightarrow> int" where
  "localTime z t = t + offsetAt z t"

definition utc :: "zone \<Rightarrow> int \<Rightarrow> date" where
  "utc z t = t - offsetAtLocal z t"

text \<open>The local calendar day of a date, as a day number (what \<open>yyyy-MM-dd\<close> identifies).\<close>

definition localDay :: "zone \<Rightarrow> date \<Rightarrow> int" where
  "localDay z t = localTime z t div msPerDay"

definition getHours :: "zone \<Rightarrow> date \<Rightarrow> int" where
  "getHours z t = (localTime z t mod msPerDay) div msPerHour"

definition getMinutes :: "zone \<Rightarrow> date \<Rightarrow> int" where
  "getMinutes z t = (localTime z t mod msPerHour) div msPerMinute"

definition getSeconds :: "zone \<Rightarrow> date \<Rightarrow> int" where
  "getSeconds z t = (localTime z t mod msPerMinute) div msPerSecond"

definition getMilliseconds :: "zone \<Rightarrow> date \<Rightarrow> int" where
  "getMilliseconds z t = localTime z t mod msPerSecond"

text \<open>
  \<open>d.setDate(d.getDate() + n)\<close>: the date is read in local time, the day of the month is
  moved by \<open>n\<close> (rolling over month and year ends) with the local time of day kept, and
  the result is converted back: the same wall-clock time \<open>n\<close> calendar days later.
\<close>

definition addDays :: "zone \<Rightarrow> date \<Rightarrow> int \<Rightarrow> date" where
  "addDays z t n = utc z (localTime z t + n * msPerDay)"

text \<open>
  \<open>d.setHours(h, m, s, ms)\<close>: the local day of \<open>d\<close> is kept, the time within the day is
  replaced (arguments out of range roll over, as in JavaScript), and the result is
  converted back.
\<close>

definition setHours :: "zone \<Rightarrow> date \<Rightarrow> int \<Rightarrow> int \<Rightarrow> int \<Rightarrow> int \<Rightarrow> date" where
  "setHours z t h m s ms =
     utc z (localDay z t * msPerDay
              + (h * msPerHour + m * msPerMinute + s * msPerSecond + ms))"

text \<open>A zone whose offset never changes.\<close>

definition fixedZone :: "int \<Rightarrow> zone" where
  "fixedZone tza = \<lparr> offsetAt = (\<lambda>t. tza), offsetAtLocal = (\<lambda>t. tza) \<rparr>"

text \<open>
  New York in 2025: five hours behind UTC, and four hours behind from 9 March, 07:00 UTC
  (local 02:00, which becomes 03:00) to 2 November, 06:00 UTC (local 02:00, which becomes
  01:00).
\<close>

definition newYork2025 :: zone where
  "newYork2025 =
     \<lparr> offsetAt = (\<lambda>t. if 1741503600000 \<le> t \<and> t < 1762063200000 then - 14400000 else - 18000000),
       offsetAtLocal =
         (\<lambda>t. if 1741489200000 \<le> t \<and> t < 1762048800000 then - 14400000 else - 18000000) \<rparr>"

text \<open>
  A zone keeps the day when no change of its offset carries a local time into another
  calendar day: a local time, converted to an instant and read back, is on the day it
  was on.
\<close>

definition keepsDay :: "zone \<Rightarrow> bool" where
  "keepsDay z = (\<forall>t. localTime z (utc z t) div msPerDay = t div msPerDay)"

section \<open>Tasks\<close>

text \<open>
  The type \<open>Task\<close> of \<open>task-calendar.tsx\<close>. The argument of \<open>addTask\<close> has the type
  \<open>Omit<Task, "id" | "completed">\<close>; a \<open>Task\<close> is such an object with the two fields added, so
  the task record extends the record of the other fields. Optional fields are options;
  \<open>importance\<close> and \<open>estimatedTime\<close> are the integers the forms produce. The field \<open>id\<close> is
  named \<open>id'\<close> here.
\<close>

record new_task =
  title :: string
  description :: string
  importance :: int
  estimatedTime :: int
  dueDate :: "date option"
  category :: "string option"
  aiSuggested :: "bool option"
  scheduledTime :: "date option"

record task = new_task +
  id' :: string
  completed :: bool

text \<open>\<open>Partial<Task>\<close>: every field may be absent; an optional field may be present and undefined.\<close>

record task_updates =
  id_upd :: "string option"
  title_upd :: "string option"
  description_upd :: "string option"
  importance_upd :: "int option"
  estimatedTime_upd :: "int option"
  dueDate_upd :: "date option option"
  completed_upd :: "bool option"
  category_upd :: "string option option"
  aiSuggested_upd :: "bool option option"
  scheduledTime_upd :: "date option option"

definition no_updates :: task_updates where
  "no_updates = \<lparr> id_upd = None, title_upd = None, description_upd = None,
     importance_upd = None, estimatedTime_upd = None, dueDate_upd = None,
     completed_upd = None, category_upd = None, aiSuggested_upd = None,
     scheduledTime_upd = None \<rparr>"

text \<open>The object spread \<open>{ ...task, ...updates }\<close>.\<close>

definition spread_updates :: "task \<Rightarrow> task_updates \<Rightarrow> task" where
  "spread_updates t u =
     \<lparr> title = (case title_upd u of None \<Rightarrow> title t | Some v \<Rightarrow> v),
       description = (case description_upd u of None \<Rightarrow> description t | Some v \<Rightarrow> v),
       importance = (case importance_upd u of None \<Rightarrow> importance t | Some v \<Rightarrow> v),
       estimatedTime = (case estimatedTime_upd u of None \<Rightarrow> estimatedTime t | Some v \<Rightarrow> v),
       dueDate = (case dueDate_upd u of None \<Rightarrow> dueDate t | Some v \<Rightarrow> v),
       category = (case category_upd u of None \<Rightarrow> category t | Some v \<Rightarrow> v),
       aiSuggested = (case aiSuggested_upd u of None \<Rightarrow> aiSuggested t | Some v \<Rightarrow> v),
       scheduledTime = (case scheduledTime_upd u of None \<Rightarrow> scheduledTime t | Some v \<Rightarrow> v),
       id' = (case id_upd u of None \<Rightarrow> id' t | Some v \<Rightarrow> v),
       completed = (case completed_upd u of None \<Rightarrow> completed t | Some v \<Rightarrow> v) \<rparr>"

section \<open>The task store\<close>






definition updateTask :: "string \<Rightarrow> task_updates \<Rightarrow> task list \<Rightarrow> task list" where
  "updateTask i updates tasks =
     map (\<lambda>task. if id' task = i then spread_updates task updates else task) tasks"

definition deleteTask :: "string \<Rightarrow> task list \<Rightarrow> task list" where
  "deleteTask i tasks = filter (\<lambda>task. id' task \<noteq> i) tasks"

section \<open>The scheduling heuristic\<close>

subsection \<open>The sort of the engine\<close>

text \<open>
  \<open>sortTasksByAI\<close> sorts a copy of the list with \<open>Array.prototype.sort\<close> and a comparator.
  The sort is the engine's, and the language says what it has to do. The result is a
  permutation of the list. Where the comparator is a consistent order on the elements of
  the list, the result is in that order, and elements that the comparator ties keep their
  relative order (the sort is stable). Where the comparator is not consistent, the order
  of the result is left to the engine. So the sort is a parameter \<open>srt\<close> of the model,
  and \<open>conformingSort srt\<close> says that it is a sort the language allows.

  A comparator is negative at \<open>(a, b)\<close> when \<open>a\<close> has to come first, positive when \<open>b\<close>
  has to, and zero when it ties them. It is consistent on a list when on the elements of
  the list it is positive one way exactly when it is negative the other way, and "comes
  first or ties" is transitive. A comparator that is consistent in this sense is a
  consistent comparator in the sense of the language (reflexive, symmetric in its ties,
  transitive in its ties and in each direction), so the sort of every conforming engine
  is a \<open>conformingSort\<close>.
\<close>

definition consistentOn :: "('a \<Rightarrow> 'a \<Rightarrow> int) \<Rightarrow> 'a list \<Rightarrow> bool" where
  "consistentOn cmp xs =
     ((\<forall>a \<in> set xs. \<forall>b \<in> set xs. (0 < cmp a b) = (cmp b a < 0)) \<and>
      (\<forall>a \<in> set xs. \<forall>b \<in> set xs. \<forall>c \<in> set xs.
         cmp a b \<le> 0 \<and> cmp b c \<le> 0 \<longrightarrow> cmp a c \<le> 0))"

definition conformingSort :: "(('a \<Rightarrow> 'a \<Rightarrow> int) \<Rightarrow> 'a list \<Rightarrow> 'a list) \<Rightarrow> bool" where
  "conformingSort srt =
     (\<forall>cmp xs.
        mset (srt cmp xs) = mset xs \<and>
        (consistentOn cmp xs \<longrightarrow>
           sorted_wrt (\<lambda>a b. cmp a b \<le> 0) (srt cmp xs) \<and>
           (\<forall>x \<in> set xs.
              filter (\<lambda>y. cmp x y = 0) (srt cmp xs) = filter (\<lambda>y. cmp x y = 0) xs)))"

text \<open>
  Two sorts that the language allows, to run the model with. The first is the stable
  insertion sort: each element, from the last to the first, is put in front of the first
  element of the sorted rest that it does not have to follow.
\<close>

fun insert_cmp :: "('a \<Rightarrow> 'a \<Rightarrow> int) \<Rightarrow> 'a \<Rightarrow> 'a list \<Rightarrow> 'a list" where
  "insert_cmp cmp x [] = [x]"
| "insert_cmp cmp x (y # ys) = (if cmp x y \<le> 0 then x # y # ys else y # insert_cmp cmp x ys)"

fun insertionSort :: "('a \<Rightarrow> 'a \<Rightarrow> int) \<Rightarrow> 'a list \<Rightarrow> 'a list" where
  "insertionSort cmp [] = []"
| "insertionSort cmp (x # xs) = insert_cmp cmp x (insertionSort cmp xs)"

text \<open>
  The second is the stable merge sort from the bottom up: the elements are runs of length
  one, and neighbouring runs are merged, the left one first on a tie, until one run is
  left.
\<close>

fun merge_cmp :: "('a \<Rightarrow> 'a \<Rightarrow> int) \<Rightarrow> 'a list \<Rightarrow> 'a list \<Rightarrow> 'a list" where
  "merge_cmp cmp [] ys = ys"
| "merge_cmp cmp (x # xs) [] = x # xs"
| "merge_cmp cmp (x # xs) (y # ys) =
     (if cmp x y \<le> 0 then x # merge_cmp cmp xs (y # ys) else y # merge_cmp cmp (x # xs) ys)"

fun merge_pairs :: "('a \<Rightarrow> 'a \<Rightarrow> int) \<Rightarrow> 'a list list \<Rightarrow> 'a list list" where
  "merge_pairs cmp (xs # ys # runs) = merge_cmp cmp xs ys # merge_pairs cmp runs"
| "merge_pairs cmp runs = runs"

function merge_runs :: "('a \<Rightarrow> 'a \<Rightarrow> int) \<Rightarrow> 'a list list \<Rightarrow> 'a list" where
  "merge_runs cmp [] = []"
| "merge_runs cmp [xs] = xs"
| "merge_runs cmp (xs # ys # runs) = merge_runs cmp (merge_pairs cmp (xs # ys # runs))"
  by pat_completeness auto
termination
proof (relation "measure (\<lambda>(cmp, runs). length runs)")
  show "wf (measure (\<lambda>(cmp, runs). length runs))"
    by simp
next
  fix cmp :: "'a \<Rightarrow> 'a \<Rightarrow> int" and xs ys :: "'a list" and runs :: "'a list list"
  have "length (merge_pairs cmp rs) \<le> length rs" for rs
    by (induction cmp rs rule: merge_pairs.induct) auto
  then have "length (merge_pairs cmp runs) \<le> length runs" .
  then show "((cmp, merge_pairs cmp (xs # ys # runs)), (cmp, xs # ys # runs))
          \<in> measure (\<lambda>(cmp, runs). length runs)"
    by simp
qed

definition mergeSort :: "('a \<Rightarrow> 'a \<Rightarrow> int) \<Rightarrow> 'a list \<Rightarrow> 'a list" where
  "mergeSort cmp xs = merge_runs cmp (map (\<lambda>x. [x]) xs)"

subsection \<open>\<open>sortTasksByAI\<close>\<close>

text \<open>\<open>Array.prototype.map\<close> with a callback that takes the element and its index.\<close>

definition map_index :: "('a \<Rightarrow> nat \<Rightarrow> 'b) \<Rightarrow> 'a list \<Rightarrow> 'b list" where
  "map_index f xs = map (\<lambda>(i, x). f x i) (enumerate 0 xs)"

text \<open>The comparator of \<open>sortTasksByAI\<close>: importance, highest first, then due date.\<close>

definition compareTasks :: "task \<Rightarrow> task \<Rightarrow> int" where
  "compareTasks a b =
     (if importance b \<noteq> importance a then importance b - importance a
      else case (dueDate a, dueDate b) of
             (Some da, Some db) \<Rightarrow> da - db
           | _ \<Rightarrow> 0)"

definition daysBeforeDue :: "int \<Rightarrow> int" where
  "daysBeforeDue imp = max 1 \<lceil>real_of_int (10 - imp) / 2\<rceil>"

definition slotHour :: "int \<Rightarrow> int" where
  "slotHour imp = (if imp \<ge> 8 then 9 else if imp \<ge> 6 then 13 else 15)"

text \<open>
  The callback of the \<open>map\<close> in \<open>sortTasksByAI\<close>. It reads the clock (\<open>new Date()\<close>) once for
  every task it schedules: \<open>clock index\<close> is the date the clock gives during the call for
  position \<open>index\<close>.
\<close>

definition scheduleTask :: "zone \<Rightarrow> (nat \<Rightarrow> date) \<Rightarrow> task \<Rightarrow> nat \<Rightarrow> task" where
  "scheduleTask z clock task index =
     (if completed task \<or> scheduledTime task \<noteq> None then task
      else
        let targetDate = clock index;
            targetDate =
              (case dueDate task of
                 Some due \<Rightarrow> addDays z due (- daysBeforeDue (importance task))
               | None \<Rightarrow> addDays z targetDate (int (index div 3)));
            hour = slotHour (importance task);
            targetDate = setHours z targetDate hour 0 0 0
        in task\<lparr>scheduledTime := Some targetDate\<rparr>)"

definition sortTasksByAI ::
    "((task \<Rightarrow> task \<Rightarrow> int) \<Rightarrow> task list \<Rightarrow> task list) \<Rightarrow> zone \<Rightarrow> (nat \<Rightarrow> date)
       \<Rightarrow> task list \<Rightarrow> task list" where
  "sortTasksByAI srt z clock tasks =
     (let sorted = srt compareTasks tasks;
          scheduledTasks = map_index (scheduleTask z clock) sorted
      in scheduledTasks)"

text \<open>A clock that shows the same date at every reading.\<close>

definition fixedClock :: "date \<Rightarrow> nat \<Rightarrow> date" where
  "fixedClock now index = now"

section \<open>Dropping a task on a calendar slot\<close>

text \<open>
  The value \<open>JSON.parse\<close> returns. The parser is the engine's; what \<open>handleDrop\<close> receives
  is its outcome on the dragged data: \<open>None\<close> when it throws a \<open>SyntaxError\<close>, the parsed
  value otherwise.
\<close>

datatype json =
    JNull
  | JBool bool
  | JNumber int
  | JString string
  | JArray "json list"
  | JObject "(string \<times> json) list"

datatype js_error = SyntaxError | TypeError

text \<open>
  \<open>taskData.id\<close>: reading a property of \<open>null\<close> throws; an object gives the value of its
  key (the last one, when the text repeated the key) or \<open>undefined\<close>; every other parsed
  value has no property \<open>id\<close> and gives \<open>undefined\<close> (\<open>None\<close>).
\<close>

fun getId :: "json \<Rightarrow> js_error + json option" where
  "getId JNull = Inl TypeError"
| "getId (JObject kvs) = Inr (map_of (rev kvs) ''id'')"
| "getId _ = Inr None"




text \<open>
  \<open>handleDragStart\<close> of the sidebar stores \<open>JSON.stringify(task)\<close> as the dragged data.
  The value below is what \<open>JSON.parse\<close> gives back on that text: the fields that are not
  undefined, in the order the store's first tasks list them, the dates as their ISO
  strings (\<open>toISOString\<close> renders a date; \<open>handleDrop\<close> reads the id only).
\<close>

definition optionalField :: "string \<Rightarrow> ('a \<Rightarrow> json) \<Rightarrow> 'a option \<Rightarrow> (string \<times> json) list" where
  "optionalField k f v = (case v of None \<Rightarrow> [] | Some x \<Rightarrow> [(k, f x)])"

definition handleDragStart :: "(date \<Rightarrow> string) \<Rightarrow> task \<Rightarrow> json" where
  "handleDragStart toISOString task =
     JObject
       ([(''id'', JString (id' task)),
         (''title'', JString (title task)),
         (''description'', JString (description task)),
         (''importance'', JNumber (importance task)),
         (''estimatedTime'', JNumber (estimatedTime task))]
        @ optionalField ''dueDate'' (JString \<circ> toISOString) (dueDate task)
        @ [(''completed'', JBool (completed task))]
        @ optionalField ''category'' JString (category task)
        @ optionalField ''aiSuggested'' JBool (aiSuggested task)
        @ optionalField ''scheduledTime'' (JString \<circ> toISOString) (scheduledTime task))"

section \<open>Calendar slots and example tasks\<close>


text \<open>
  The three tasks the store starts with, their dates read in a zone with offset 0:
  \<open>new Date(2025, 0, 24)\<close> is 1737676800000, \<open>new Date(2025, 0, 22, 9, 0)\<close> is
  1737536400000, and so on.
\<close>

definition task1 :: task where
  "task1 = \<lparr> title = ''Complete project proposal'',
       description = ''Finish the Q1 project proposal for the client meeting'',
       importance = 9, estimatedTime = 120, dueDate = Some 1737676800000,
       category = Some ''Work'', aiSuggested = None, scheduledTime = Some 1737536400000,
       id' = ''1'', completed = False \<rparr>"

definition task2 :: task where
  "task2 = \<lparr> title = ''Review pull requests'',
       description = ''Review and merge pending PRs from the team'',
       importance = 7, estimatedTime = 45, dueDate = None,
       category = Some ''Work'', aiSuggested = None, scheduledTime = Some 1737554400000,
       id' = ''2'', completed = False \<rparr>"

definition task3 :: task where
  "task3 = \<lparr> title = ''Gym workout'', description = ''Leg day at the gym'',
       importance = 5, estimatedTime = 60, dueDate = None,
       category = Some ''Personal'', aiSuggested = None, scheduledTime = Some 1737568800000,
       id' = ''3'', completed = False \<rparr>"

text \<open>A task as the add-task form leaves it in the store: not completed, not scheduled.\<close>

definition sampleTask :: "string \<Rightarrow> int \<Rightarrow> date option \<Rightarrow> task" where
  "sampleTask i imp due =
     \<lparr> title = ''Task'', description = '''', importance = imp, estimatedTime = 30,
       dueDate = due, category = None, aiSuggested = None, scheduledTime = None,
       id' = i, completed = False \<rparr>"


section \<open>The order the specification describes\<close>



section \<open>Properties of dates\<close>

text \<open>The equations that evaluate the operations on given tasks and dates.\<close>

lemmas date_consts = msPerDay_def msPerHour_def msPerMinute_def msPerSecond_def
lemmas date_defs = localDay_def localTime_def utc_def getHours_def getMinutes_def getSeconds_def
  getMilliseconds_def addDays_def setHours_def fixedZone_def newYork2025_def

lemmas run_defs = sortTasksByAI_def map_index_def enumerate_eq_zip scheduleTask_def
  compareTasks_def slotHour_def fixedClock_def sampleTask_def task1_def task2_def task3_def

lemma daysBeforeDue_int: "daysBeforeDue imp = max 1 (- ((imp - 10) div 2))"
proof -
  have "\<lceil>real_of_int (10 - imp) / 2\<rceil> = - ((imp - 10) div 2)"
    using ceiling_divide_eq_div [of "10 - imp" 2, where ?'a = real] by simp
  then show ?thesis by (simp add: daysBeforeDue_def)
qed

lemma slotHour_range: "0 \<le> slotHour imp \<and> slotHour imp < 24"
  by (simp add: slotHour_def)

subsection \<open>In a zone that keeps the day\<close>

lemma localDay_utc: "keepsDay z \<Longrightarrow> localDay z (utc z t) = t div msPerDay"
  by (simp add: keepsDay_def localDay_def)

lemma localDay_addDays:
  assumes "keepsDay z"
  shows "localDay z (addDays z t n) = localDay z t + n"
proof -
  have "localDay z (addDays z t n) = (localTime z t + n * msPerDay) div msPerDay"
    using assms by (simp add: addDays_def localDay_utc)
  also have "\<dots> = localTime z t div msPerDay + n"
    by (simp add: msPerDay_def)
  finally show ?thesis by (simp add: localDay_def)
qed

lemma localDay_setHours:
  assumes "keepsDay z" and "0 \<le> h" and "h < 24"
  shows "localDay z (setHours z t h 0 0 0) = localDay z t"
proof -
  have "localDay z (setHours z t h 0 0 0)
          = (localDay z t * msPerDay + h * msPerHour) div msPerDay"
    using assms(1) by (simp add: setHours_def localDay_utc)
  also have "\<dots> = (localDay z t * 86400000 + h * 3600000) div 86400000"
    by (simp add: msPerDay_def msPerHour_def)
  also have "\<dots> = localDay z t"
    using assms(2,3) by (simp add: div_pos_pos_trivial)
  finally show ?thesis .
qed

lemma setHours_cong_day:
  "localDay z t = localDay z t' \<Longrightarrow> setHours z t h m s ms = setHours z t' h m s ms"
  by (simp add: setHours_def)

subsection \<open>In a zone with a fixed offset\<close>

lemma localTime_fixedZone: "localTime (fixedZone tza) t = t + tza"
  by (simp add: localTime_def fixedZone_def)

lemma utc_fixedZone: "utc (fixedZone tza) t = t - tza"
  by (simp add: utc_def fixedZone_def)

lemma keepsDay_fixedZone: "keepsDay (fixedZone tza)"
  by (simp add: keepsDay_def localTime_fixedZone utc_fixedZone)

lemma localTime_setHours:
  "localTime (fixedZone tza) (setHours (fixedZone tza) t h m s ms) =
     localDay (fixedZone tza) t * msPerDay
       + (h * msPerHour + m * msPerMinute + s * msPerSecond + ms)"
  by (simp add: setHours_def localTime_fixedZone utc_fixedZone)

lemma getHours_setHours:
  assumes "0 \<le> h" "h < 24"
  shows "getHours (fixedZone tza) (setHours (fixedZone tza) t h 0 0 0) = h"
proof -
  have "(localDay (fixedZone tza) t * 86400000 + h * 3600000) mod 86400000 = h * 3600000"
    using assms by (simp add: mod_pos_pos_trivial)
  then show ?thesis
    unfolding getHours_def localTime_setHours
    by (simp add: msPerDay_def msPerHour_def)
qed

lemma getMinutes_setHours:
  "getMinutes (fixedZone tza) (setHours (fixedZone tza) t h 0 0 0) = 0"
proof -
  let ?day = "localDay (fixedZone tza) t"
  have "?day * 86400000 + h * 3600000 = (?day * 24 + h) * 3600000"
    by (simp add: algebra_simps)
  then have "(?day * 86400000 + h * 3600000) mod 3600000 = 0"
    by simp
  then show ?thesis
    unfolding getMinutes_def localTime_setHours
    by (simp add: msPerDay_def msPerHour_def msPerMinute_def)
qed

lemma getSeconds_setHours:
  "getSeconds (fixedZone tza) (setHours (fixedZone tza) t h 0 0 0) = 0"
proof -
  let ?day = "localDay (fixedZone tza) t"
  have "?day * 86400000 + h * 3600000 = (?day * 1440 + h * 60) * 60000"
    by (simp add: algebra_simps)
  then have "(?day * 86400000 + h * 3600000) mod 60000 = 0"
    by simp
  then show ?thesis
    unfolding getSeconds_def localTime_setHours
    by (simp add: msPerDay_def msPerHour_def msPerMinute_def msPerSecond_def)
qed

lemma getMilliseconds_setHours:
  "getMilliseconds (fixedZone tza) (setHours (fixedZone tza) t h 0 0 0) = 0"
proof -
  let ?day = "localDay (fixedZone tza) t"
  have "?day * 86400000 + h * 3600000 = (?day * 86400 + h * 3600) * 1000"
    by (simp add: algebra_simps)
  then have "(?day * 86400000 + h * 3600000) mod 1000 = 0"
    by simp
  then show ?thesis
    unfolding getMilliseconds_def localTime_setHours
    by (simp add: msPerDay_def msPerHour_def msPerMinute_def msPerSecond_def)
qed

subsection \<open>In New York\<close>



section \<open>Properties of the sorts\<close>

subsection \<open>What follows for every sort the language allows\<close>

lemma conformingSort_mset: "conformingSort srt \<Longrightarrow> mset (srt cmp xs) = mset xs"
  by (simp add: conformingSort_def)

lemma conformingSort_length: "conformingSort srt \<Longrightarrow> length (srt cmp xs) = length xs"
  using conformingSort_mset [of srt cmp xs] by (metis size_mset)

lemma conformingSort_set: "conformingSort srt \<Longrightarrow> set (srt cmp xs) = set xs"
  using conformingSort_mset [of srt cmp xs] by (metis set_mset_mset)

lemma conformingSort_sorted:
  "conformingSort srt \<Longrightarrow> consistentOn cmp xs \<Longrightarrow> sorted_wrt (\<lambda>a b. cmp a b \<le> 0) (srt cmp xs)"
  by (simp add: conformingSort_def)

lemma conformingSort_stable:
  "conformingSort srt \<Longrightarrow> consistentOn cmp xs \<Longrightarrow> x \<in> set xs \<Longrightarrow>
   filter (\<lambda>y. cmp x y = 0) (srt cmp xs) = filter (\<lambda>y. cmp x y = 0) xs"
  by (simp add: conformingSort_def)

subsection \<open>Consistent comparators\<close>

lemma consistentOn_refl: "consistentOn cmp xs \<Longrightarrow> a \<in> set xs \<Longrightarrow> cmp a a = 0"
  unfolding consistentOn_def by (metis less_le not_less)

lemma consistentOn_total:
  "consistentOn cmp xs \<Longrightarrow> a \<in> set xs \<Longrightarrow> b \<in> set xs \<Longrightarrow> 0 < cmp a b \<Longrightarrow> cmp b a < 0"
  unfolding consistentOn_def by blast

lemma consistentOn_tie:
  "consistentOn cmp xs \<Longrightarrow> a \<in> set xs \<Longrightarrow> b \<in> set xs \<Longrightarrow>
   cmp a b \<le> 0 \<Longrightarrow> cmp b a \<le> 0 \<Longrightarrow> cmp a b = 0"
  unfolding consistentOn_def by (metis less_le not_less)

lemma consistentOn_sym:
  "consistentOn cmp xs \<Longrightarrow> a \<in> set xs \<Longrightarrow> b \<in> set xs \<Longrightarrow> cmp a b = 0 \<Longrightarrow> cmp b a = 0"
  unfolding consistentOn_def by (metis less_le not_less)

lemma consistentOn_trans:
  "consistentOn cmp xs \<Longrightarrow> a \<in> set xs \<Longrightarrow> b \<in> set xs \<Longrightarrow> c \<in> set xs \<Longrightarrow>
   cmp a b \<le> 0 \<Longrightarrow> cmp b c \<le> 0 \<Longrightarrow> cmp a c \<le> 0"
  unfolding consistentOn_def by blast

lemma consistentOn_subset: "consistentOn cmp xs \<Longrightarrow> set ys \<subseteq> set xs \<Longrightarrow> consistentOn cmp ys"
  unfolding consistentOn_def by (meson subsetD)

text \<open>
  There is one list only that is a permutation of a given list, in the order of the
  comparator and with the tied elements in their order: two lists in the order of the
  comparator with the same elements and the same order of tied elements are equal.
\<close>

lemma sorted_stable_unique:
  assumes "consistentOn cmp ys"
    and "sorted_wrt (\<lambda>a b. cmp a b \<le> 0) ys"
    and "sorted_wrt (\<lambda>a b. cmp a b \<le> 0) zs"
    and "mset ys = mset zs"
    and "\<forall>x \<in> set ys. filter (\<lambda>y. cmp x y = 0) ys = filter (\<lambda>y. cmp x y = 0) zs"
  shows "ys = zs"
  using assms
proof (induction ys arbitrary: zs)
  case Nil
  then show ?case by simp
next
  case (Cons y ys)
  from Cons.prems(4) obtain z zs' where zs: "zs = z # zs'"
    by (cases zs) auto
  have sets: "set (y # ys) = set (z # zs')"
    using Cons.prems(4) zs by (metis set_mset_mset)
  have yy: "cmp y y = 0"
    using consistentOn_refl [OF Cons.prems(1)] by simp
  have yz: "cmp y z \<le> 0"
  proof (cases "z = y")
    case True
    with yy show ?thesis by simp
  next
    case False
    then have "z \<in> set ys" using sets by auto
    with Cons.prems(2) show ?thesis by simp
  qed
  have zy: "cmp z y \<le> 0"
  proof (cases "y = z")
    case True
    with yy show ?thesis by simp
  next
    case False
    then have "y \<in> set zs'" using sets by auto
    with Cons.prems(3) zs show ?thesis by simp
  qed
  have "z \<in> set (y # ys)" using sets by simp
  then have tie: "cmp y z = 0"
    using consistentOn_tie [OF Cons.prems(1), of y z] yz zy by simp
  have "filter (\<lambda>x. cmp y x = 0) (y # ys) = filter (\<lambda>x. cmp y x = 0) (z # zs')"
    using Cons.prems(5) zs by simp
  with yy tie have eq: "y = z" by simp
  have "ys = zs'"
  proof (rule Cons.IH)
    show "consistentOn cmp ys"
      using Cons.prems(1) by (rule consistentOn_subset) auto
    show "sorted_wrt (\<lambda>a b. cmp a b \<le> 0) ys"
      using Cons.prems(2) by simp
    show "sorted_wrt (\<lambda>a b. cmp a b \<le> 0) zs'"
      using Cons.prems(3) zs by simp
    show "mset ys = mset zs'"
      using Cons.prems(4) zs eq by simp
    show "\<forall>x \<in> set ys. filter (\<lambda>y. cmp x y = 0) ys = filter (\<lambda>y. cmp x y = 0) zs'"
    proof
      fix x
      assume "x \<in> set ys"
      then have "filter (\<lambda>y. cmp x y = 0) (y # ys) = filter (\<lambda>y. cmp x y = 0) (y # zs')"
        using Cons.prems(5) zs eq by simp
      then show "filter (\<lambda>y. cmp x y = 0) ys = filter (\<lambda>y. cmp x y = 0) zs'"
        by (cases "cmp x y = 0") simp_all
    qed
  qed
  with eq zs show ?case by simp
qed

text \<open>On a list on which the comparator is consistent, all the sorts give the same list.\<close>

lemma conforming_sorts_agree:
  assumes "conformingSort srt" and "conformingSort srt'" and "consistentOn cmp xs"
  shows "srt cmp xs = srt' cmp xs"
proof (rule sorted_stable_unique [of cmp])
  show "consistentOn cmp (srt cmp xs)"
    using assms(3) by (rule consistentOn_subset) (simp add: conformingSort_set assms(1))
  show "sorted_wrt (\<lambda>a b. cmp a b \<le> 0) (srt cmp xs)"
    using assms(1,3) by (rule conformingSort_sorted)
  show "sorted_wrt (\<lambda>a b. cmp a b \<le> 0) (srt' cmp xs)"
    using assms(2,3) by (rule conformingSort_sorted)
  show "mset (srt cmp xs) = mset (srt' cmp xs)"
    using assms(1,2) by (simp add: conformingSort_mset)
  show "\<forall>x \<in> set (srt cmp xs).
          filter (\<lambda>y. cmp x y = 0) (srt cmp xs) = filter (\<lambda>y. cmp x y = 0) (srt' cmp xs)"
    using assms by (simp add: conformingSort_set conformingSort_stable)
qed

text \<open>A list that is in the order of a consistent comparator is sorted into itself.\<close>

lemma conformingSort_sorted_id:
  assumes "conformingSort srt" and "consistentOn cmp xs"
    and "sorted_wrt (\<lambda>a b. cmp a b \<le> 0) xs"
  shows "srt cmp xs = xs"
proof (rule sorted_stable_unique [of cmp])
  show "consistentOn cmp (srt cmp xs)"
    using assms(2) by (rule consistentOn_subset) (simp add: conformingSort_set assms(1))
  show "sorted_wrt (\<lambda>a b. cmp a b \<le> 0) (srt cmp xs)"
    using assms(1,2) by (rule conformingSort_sorted)
  show "sorted_wrt (\<lambda>a b. cmp a b \<le> 0) xs"
    by (rule assms(3))
  show "mset (srt cmp xs) = mset xs"
    using assms(1) by (rule conformingSort_mset)
  show "\<forall>x \<in> set (srt cmp xs).
          filter (\<lambda>y. cmp x y = 0) (srt cmp xs) = filter (\<lambda>y. cmp x y = 0) xs"
    using assms by (simp add: conformingSort_set conformingSort_stable)
qed

subsection \<open>The insertion sort is a sort the language allows\<close>

lemma mset_insert_cmp: "mset (insert_cmp cmp x ys) = add_mset x (mset ys)"
  by (induction ys) auto

lemma mset_insertionSort: "mset (insertionSort cmp xs) = mset xs"
  by (induction xs) (auto simp: mset_insert_cmp)

lemma set_insert_cmp: "set (insert_cmp cmp x ys) = insert x (set ys)"
  using mset_insert_cmp [of cmp x ys] by (metis set_mset_mset set_mset_add_mset_insert)

lemma set_insertionSort: "set (insertionSort cmp xs) = set xs"
  using mset_insertionSort [of cmp xs] by (metis set_mset_mset)

lemma sorted_insert_cmp:
  assumes "consistentOn cmp (x # ys)" and "sorted_wrt (\<lambda>a b. cmp a b \<le> 0) ys"
  shows "sorted_wrt (\<lambda>a b. cmp a b \<le> 0) (insert_cmp cmp x ys)"
  using assms
proof (induction ys)
  case Nil
  then show ?case by simp
next
  case (Cons y ys)
  note con = Cons.prems(1)
  show ?case
  proof (cases "cmp x y \<le> 0")
    case True
    have "cmp x b \<le> 0" if "b \<in> set ys" for b
      using consistentOn_trans [OF con, of x y b] True Cons.prems(2) that by simp
    with True Cons.prems(2) show ?thesis by simp
  next
    case False
    then have yx: "cmp y x \<le> 0"
      using consistentOn_total [OF con, of x y] by simp
    have "consistentOn cmp (x # ys)"
      using con by (rule consistentOn_subset) auto
    then have "sorted_wrt (\<lambda>a b. cmp a b \<le> 0) (insert_cmp cmp x ys)"
      using Cons.IH Cons.prems(2) by simp
    with False yx Cons.prems(2) show ?thesis
      by (auto simp: set_insert_cmp)
  qed
qed

lemma sorted_insertionSort:
  "consistentOn cmp xs \<Longrightarrow> sorted_wrt (\<lambda>a b. cmp a b \<le> 0) (insertionSort cmp xs)"
proof (induction xs)
  case Nil
  then show ?case by simp
next
  case (Cons x xs)
  have "consistentOn cmp xs"
    using Cons.prems by (rule consistentOn_subset) auto
  then have "sorted_wrt (\<lambda>a b. cmp a b \<le> 0) (insertionSort cmp xs)"
    by (rule Cons.IH)
  moreover have "consistentOn cmp (x # insertionSort cmp xs)"
    using Cons.prems by (rule consistentOn_subset) (simp add: set_insertionSort)
  ultimately show ?case by (simp add: sorted_insert_cmp)
qed

text \<open>Elements that the comparator does not put after each other keep their relative order.\<close>

lemma filter_insert_cmp:
  assumes "\<And>a b. a \<in> set (x # ys) \<Longrightarrow> b \<in> set (x # ys) \<Longrightarrow> P a \<Longrightarrow> P b \<Longrightarrow> cmp a b \<le> 0"
  shows "filter P (insert_cmp cmp x ys) = filter P (x # ys)"
  using assms
proof (induction ys)
  case Nil
  then show ?case by simp
next
  case (Cons y ys)
  show ?case
  proof (cases "cmp x y \<le> 0")
    case True
    then show ?thesis by simp
  next
    case False
    then have "\<not> (P x \<and> P y)" using Cons.prems [of x y] by auto
    moreover have "filter P (insert_cmp cmp x ys) = filter P (x # ys)"
      by (rule Cons.IH) (use Cons.prems in auto)
    ultimately show ?thesis using False by auto
  qed
qed

lemma filter_insertionSort:
  assumes "\<And>a b. a \<in> set xs \<Longrightarrow> b \<in> set xs \<Longrightarrow> P a \<Longrightarrow> P b \<Longrightarrow> cmp a b \<le> 0"
  shows "filter P (insertionSort cmp xs) = filter P xs"
  using assms
proof (induction xs)
  case Nil
  then show ?case by simp
next
  case (Cons x xs)
  have "filter P (insert_cmp cmp x (insertionSort cmp xs)) = filter P (x # insertionSort cmp xs)"
    by (rule filter_insert_cmp) (use Cons.prems in \<open>auto simp: set_insertionSort\<close>)
  then have "filter P (insertionSort cmp (x # xs)) = filter P (x # insertionSort cmp xs)"
    by simp
  moreover have "filter P (insertionSort cmp xs) = filter P xs"
    by (rule Cons.IH) (use Cons.prems in auto)
  ultimately show ?case by simp
qed

lemma conformingSort_insertionSort: "conformingSort insertionSort"
  unfolding conformingSort_def
proof (intro allI conjI impI ballI)
  fix cmp :: "'a \<Rightarrow> 'a \<Rightarrow> int" and xs :: "'a list"
  show "mset (insertionSort cmp xs) = mset xs"
    by (rule mset_insertionSort)
next
  fix cmp :: "'a \<Rightarrow> 'a \<Rightarrow> int" and xs :: "'a list"
  assume "consistentOn cmp xs"
  then show "sorted_wrt (\<lambda>a b. cmp a b \<le> 0) (insertionSort cmp xs)"
    by (rule sorted_insertionSort)
next
  fix cmp :: "'a \<Rightarrow> 'a \<Rightarrow> int" and xs :: "'a list" and x
  assume con: "consistentOn cmp xs" and x: "x \<in> set xs"
  show "filter (\<lambda>y. cmp x y = 0) (insertionSort cmp xs) = filter (\<lambda>y. cmp x y = 0) xs"
  proof (rule filter_insertionSort)
    fix a b
    assume a: "a \<in> set xs" and b: "b \<in> set xs" and "cmp x a = 0" and "cmp x b = 0"
    then have "cmp a x \<le> 0" and "cmp x b \<le> 0"
      using consistentOn_sym [OF con x a] by simp_all
    then show "cmp a b \<le> 0"
      using consistentOn_trans [OF con a x b] by simp
  qed
qed

subsection \<open>The merge sort is a sort the language allows\<close>

lemma mset_merge_cmp: "mset (merge_cmp cmp xs ys) = mset xs + mset ys"
  by (induction cmp xs ys rule: merge_cmp.induct) auto

lemma set_merge_cmp: "set (merge_cmp cmp xs ys) = set xs \<union> set ys"
  using mset_merge_cmp [of cmp xs ys] by (metis set_mset_mset set_mset_union)

lemma sorted_merge_cmp:
  assumes "consistentOn cmp (xs @ ys)"
    and "sorted_wrt (\<lambda>a b. cmp a b \<le> 0) xs" and "sorted_wrt (\<lambda>a b. cmp a b \<le> 0) ys"
  shows "sorted_wrt (\<lambda>a b. cmp a b \<le> 0) (merge_cmp cmp xs ys)"
  using assms
proof (induction cmp xs ys rule: merge_cmp.induct)
  case (1 cmp ys)
  then show ?case by simp
next
  case (2 cmp x xs)
  then show ?case by simp
next
  case (3 cmp x xs y ys)
  note con = "3.prems"(1)
  show ?case
  proof (cases "cmp x y \<le> 0")
    case True
    have "consistentOn cmp (xs @ y # ys)"
      using con by (rule consistentOn_subset) auto
    then have ih: "sorted_wrt (\<lambda>a b. cmp a b \<le> 0) (merge_cmp cmp xs (y # ys))"
      using "3.IH"(1) True "3.prems" by simp
    have "cmp x b \<le> 0" if "b \<in> set ys" for b
      using consistentOn_trans [OF con, of x y b] True "3.prems"(3) that by simp
    with True ih "3.prems"(2) show ?thesis
      by (auto simp: set_merge_cmp)
  next
    case False
    then have yx: "cmp y x \<le> 0"
      using consistentOn_total [OF con, of x y] by simp
    have "consistentOn cmp ((x # xs) @ ys)"
      using con by (rule consistentOn_subset) auto
    then have ih: "sorted_wrt (\<lambda>a b. cmp a b \<le> 0) (merge_cmp cmp (x # xs) ys)"
      using "3.IH"(2) False "3.prems" by simp
    have "cmp y a \<le> 0" if "a \<in> set xs" for a
      using consistentOn_trans [OF con, of y x a] yx "3.prems"(2) that by simp
    with False yx ih "3.prems"(3) show ?thesis
      by (auto simp: set_merge_cmp)
  qed
qed

text \<open>Merging keeps the relative order of elements that are tied with each other.\<close>

lemma filter_merge_cmp:
  assumes "consistentOn cmp (xs @ ys)"
    and "sorted_wrt (\<lambda>a b. cmp a b \<le> 0) xs"
    and "\<And>a b. a \<in> set (xs @ ys) \<Longrightarrow> b \<in> set (xs @ ys) \<Longrightarrow> P a \<Longrightarrow> P b \<Longrightarrow> cmp a b \<le> 0"
  shows "filter P (merge_cmp cmp xs ys) = filter P xs @ filter P ys"
  using assms
proof (induction cmp xs ys rule: merge_cmp.induct)
  case (1 cmp ys)
  then show ?case by simp
next
  case (2 cmp x xs)
  then show ?case by simp
next
  case (3 cmp x xs y ys)
  note con = "3.prems"(1)
  show ?case
  proof (cases "cmp x y \<le> 0")
    case True
    have "filter P (merge_cmp cmp xs (y # ys)) = filter P xs @ filter P (y # ys)"
    proof (rule "3.IH"(1) [OF True])
      show "consistentOn cmp (xs @ y # ys)"
        using con by (rule consistentOn_subset) auto
      show "sorted_wrt (\<lambda>a b. cmp a b \<le> 0) xs"
        using "3.prems"(2) by simp
    qed (use "3.prems"(3) in auto)
    with True show ?thesis by simp
  next
    case False
    have ih: "filter P (merge_cmp cmp (x # xs) ys) = filter P (x # xs) @ filter P ys"
    proof (rule "3.IH"(2) [OF False])
      show "consistentOn cmp ((x # xs) @ ys)"
        using con by (rule consistentOn_subset) auto
      show "sorted_wrt (\<lambda>a b. cmp a b \<le> 0) (x # xs)"
        by (rule "3.prems"(2))
    qed (use "3.prems"(3) in auto)
    show ?thesis
    proof (cases "P y")
      case Py: True
      have "\<not> P a" if a: "a \<in> set (x # xs)" for a
      proof
        assume "P a"
        then have ay: "cmp a y \<le> 0"
          using "3.prems"(3) [of a y] a Py by auto
        have xa: "cmp x a \<le> 0"
        proof (cases "a = x")
          case True
          then show ?thesis using consistentOn_refl [OF con, of x] by simp
        next
          case False
          with a "3.prems"(2) show ?thesis by simp
        qed
        have "cmp x y \<le> 0"
          using consistentOn_trans [OF con, of x a y] xa ay a by auto
        with \<open>\<not> cmp x y \<le> 0\<close> show False by simp
      qed
      then have "filter P (x # xs) = []"
        by (simp only: filter_empty_conv) blast
      with False ih show ?thesis by simp
    next
      case False
      with \<open>\<not> cmp x y \<le> 0\<close> ih show ?thesis by simp
    qed
  qed
qed

lemma mset_merge_pairs: "mset (concat (merge_pairs cmp runs)) = mset (concat runs)"
  by (induction cmp runs rule: merge_pairs.induct) (simp_all add: mset_merge_cmp)

lemma set_merge_pairs: "set (concat (merge_pairs cmp runs)) = set (concat runs)"
  using mset_merge_pairs [of cmp runs] by (metis set_mset_mset)

lemma sorted_merge_pairs:
  assumes "consistentOn cmp (concat runs)"
    and "\<forall>r \<in> set runs. sorted_wrt (\<lambda>a b. cmp a b \<le> 0) r"
  shows "\<forall>r \<in> set (merge_pairs cmp runs). sorted_wrt (\<lambda>a b. cmp a b \<le> 0) r"
  using assms
proof (induction cmp runs rule: merge_pairs.induct)
  case (1 cmp xs ys runs)
  have "consistentOn cmp (xs @ ys)"
    using "1.prems"(1) by (rule consistentOn_subset) auto
  then have "sorted_wrt (\<lambda>a b. cmp a b \<le> 0) (merge_cmp cmp xs ys)"
    using "1.prems"(2) by (simp add: sorted_merge_cmp)
  moreover have "consistentOn cmp (concat runs)"
    using "1.prems"(1) by (rule consistentOn_subset) auto
  then have "\<forall>r \<in> set (merge_pairs cmp runs). sorted_wrt (\<lambda>a b. cmp a b \<le> 0) r"
    using "1.IH" "1.prems"(2) by simp
  ultimately show ?case by simp
qed simp_all

lemma filter_merge_pairs:
  assumes "consistentOn cmp (concat runs)"
    and "\<forall>r \<in> set runs. sorted_wrt (\<lambda>a b. cmp a b \<le> 0) r"
    and "\<And>a b. a \<in> set (concat runs) \<Longrightarrow> b \<in> set (concat runs) \<Longrightarrow> P a \<Longrightarrow> P b \<Longrightarrow> cmp a b \<le> 0"
  shows "filter P (concat (merge_pairs cmp runs)) = filter P (concat runs)"
  using assms
proof (induction cmp runs rule: merge_pairs.induct)
  case (1 cmp xs ys runs)
  have "filter P (merge_cmp cmp xs ys) = filter P xs @ filter P ys"
  proof (rule filter_merge_cmp)
    show "consistentOn cmp (xs @ ys)"
      using "1.prems"(1) by (rule consistentOn_subset) auto
    show "sorted_wrt (\<lambda>a b. cmp a b \<le> 0) xs"
      using "1.prems"(2) by simp
  qed (use "1.prems"(3) in auto)
  moreover have "filter P (concat (merge_pairs cmp runs)) = filter P (concat runs)"
  proof (rule "1.IH")
    show "consistentOn cmp (concat runs)"
      using "1.prems"(1) by (rule consistentOn_subset) auto
    show "\<forall>r \<in> set runs. sorted_wrt (\<lambda>a b. cmp a b \<le> 0) r"
      using "1.prems"(2) by simp
  qed (use "1.prems"(3) in auto)
  ultimately show ?case by simp
qed simp_all

lemma mset_merge_runs: "mset (merge_runs cmp runs) = mset (concat runs)"
proof (induction cmp runs rule: merge_runs.induct)
  case (3 cmp xs ys runs)
  then show ?case
    using mset_merge_pairs [of cmp "xs # ys # runs"] by simp
qed simp_all

lemma sorted_merge_runs:
  assumes "consistentOn cmp (concat runs)"
    and "\<forall>r \<in> set runs. sorted_wrt (\<lambda>a b. cmp a b \<le> 0) r"
  shows "sorted_wrt (\<lambda>a b. cmp a b \<le> 0) (merge_runs cmp runs)"
  using assms
proof (induction cmp runs rule: merge_runs.induct)
  case (3 cmp xs ys runs)
  let ?runs = "xs # ys # runs"
  have "consistentOn cmp (concat (merge_pairs cmp ?runs))"
    using "3.prems"(1) by (rule consistentOn_subset) (simp only: set_merge_pairs subset_refl)
  moreover have "\<forall>r \<in> set (merge_pairs cmp ?runs). sorted_wrt (\<lambda>a b. cmp a b \<le> 0) r"
    using "3.prems" by (rule sorted_merge_pairs)
  ultimately have "sorted_wrt (\<lambda>a b. cmp a b \<le> 0) (merge_runs cmp (merge_pairs cmp ?runs))"
    by (rule "3.IH")
  then show ?case by simp
qed simp_all

lemma filter_merge_runs:
  assumes "consistentOn cmp (concat runs)"
    and "\<forall>r \<in> set runs. sorted_wrt (\<lambda>a b. cmp a b \<le> 0) r"
    and "\<And>a b. a \<in> set (concat runs) \<Longrightarrow> b \<in> set (concat runs) \<Longrightarrow> P a \<Longrightarrow> P b \<Longrightarrow> cmp a b \<le> 0"
  shows "filter P (merge_runs cmp runs) = filter P (concat runs)"
  using assms
proof (induction cmp runs rule: merge_runs.induct)
  case (3 cmp xs ys runs)
  let ?runs = "xs # ys # runs"
  have s: "set (concat (merge_pairs cmp ?runs)) = set (concat ?runs)"
    by (rule set_merge_pairs)
  have "filter P (merge_runs cmp (merge_pairs cmp ?runs)) = filter P (concat (merge_pairs cmp ?runs))"
  proof (rule "3.IH")
    show "consistentOn cmp (concat (merge_pairs cmp ?runs))"
      using "3.prems"(1) by (rule consistentOn_subset) (simp only: s subset_refl)
    show "\<forall>r \<in> set (merge_pairs cmp ?runs). sorted_wrt (\<lambda>a b. cmp a b \<le> 0) r"
      using "3.prems"(1,2) by (rule sorted_merge_pairs)
    show "cmp a b \<le> 0"
      if "a \<in> set (concat (merge_pairs cmp ?runs))" "b \<in> set (concat (merge_pairs cmp ?runs))"
        "P a" "P b" for a b
      using that "3.prems"(3) [of a b] unfolding s by simp
  qed
  also have "\<dots> = filter P (concat ?runs)"
    using "3.prems" by (rule filter_merge_pairs)
  finally show ?case by simp
qed simp_all

lemma concat_singletons: "concat (map (\<lambda>x. [x]) xs) = xs"
  by (induction xs) simp_all

lemma conformingSort_mergeSort: "conformingSort mergeSort"
  unfolding conformingSort_def mergeSort_def
proof (intro allI conjI impI ballI)
  fix cmp :: "'a \<Rightarrow> 'a \<Rightarrow> int" and xs :: "'a list"
  show "mset (merge_runs cmp (map (\<lambda>x. [x]) xs)) = mset xs"
    by (simp add: mset_merge_runs concat_singletons)
next
  fix cmp :: "'a \<Rightarrow> 'a \<Rightarrow> int" and xs :: "'a list"
  assume "consistentOn cmp xs"
  then show "sorted_wrt (\<lambda>a b. cmp a b \<le> 0) (merge_runs cmp (map (\<lambda>x. [x]) xs))"
    by (intro sorted_merge_runs) (auto simp: concat_singletons)
next
  fix cmp :: "'a \<Rightarrow> 'a \<Rightarrow> int" and xs :: "'a list" and x
  assume con: "consistentOn cmp xs" and x: "x \<in> set xs"
  have "filter (\<lambda>y. cmp x y = 0) (merge_runs cmp (map (\<lambda>x. [x]) xs))
          = filter (\<lambda>y. cmp x y = 0) (concat (map (\<lambda>x. [x]) xs))"
  proof (rule filter_merge_runs)
    show "consistentOn cmp (concat (map (\<lambda>x. [x]) xs))"
      using con by (simp add: concat_singletons)
    show "\<forall>r \<in> set (map (\<lambda>x. [x]) xs). sorted_wrt (\<lambda>a b. cmp a b \<le> 0) r"
      by auto
    fix a b
    assume "a \<in> set (concat (map (\<lambda>x. [x]) xs))" "b \<in> set (concat (map (\<lambda>x. [x]) xs))"
      and ties: "cmp x a = 0" "cmp x b = 0"
    then have a: "a \<in> set xs" and b: "b \<in> set xs"
      by (simp_all add: concat_singletons)
    have "cmp a x \<le> 0" and "cmp x b \<le> 0"
      using consistentOn_sym [OF con x a] ties by simp_all
    then show "cmp a b \<le> 0"
      using consistentOn_trans [OF con a x b] by simp
  qed
  then show "filter (\<lambda>y. cmp x y = 0) (merge_runs cmp (map (\<lambda>x. [x]) xs))
          = filter (\<lambda>y. cmp x y = 0) xs"
    by (simp add: concat_singletons)
qed

section \<open>Properties of the operations\<close>

subsection \<open>The comparator of tasks\<close>

lemma compareTasks_cong:
  "importance a' = importance a \<Longrightarrow> dueDate a' = dueDate a \<Longrightarrow>
   importance b' = importance b \<Longrightarrow> dueDate b' = dueDate b \<Longrightarrow>
   compareTasks a' b' = compareTasks a b"
  by (simp add: compareTasks_def)

subsection \<open>The map with an index\<close>

lemma length_map_index: "length (map_index f xs) = length xs"
  by (simp add: map_index_def)

lemma nth_map_index: "i < length xs \<Longrightarrow> map_index f xs ! i = f (xs ! i) i"
  by (simp add: map_index_def nth_enumerate_eq)

subsection \<open>The callback\<close>

lemma scheduleTask_kept:
  "completed t \<or> scheduledTime t \<noteq> None \<Longrightarrow> scheduleTask z clock t i = t"
  by (simp add: scheduleTask_def)

lemma scheduleTask_new:
  "\<not> completed t \<Longrightarrow> scheduledTime t = None \<Longrightarrow>
   scheduleTask z clock t i =
     t\<lparr>scheduledTime := Some (setHours z
        (case dueDate t of
           Some due \<Rightarrow> addDays z due (- daysBeforeDue (importance t))
         | None \<Rightarrow> addDays z (clock i) (int (i div 3)))
        (slotHour (importance t)) 0 0 0)\<rparr>"
  by (simp add: scheduleTask_def Let_def)

lemma scheduleTask_keys:
  "importance (scheduleTask z clock t i) = importance t"
  "dueDate (scheduleTask z clock t i) = dueDate t"
  "completed (scheduleTask z clock t i) = completed t"
  by (simp_all add: scheduleTask_def Let_def)

lemma scheduleTask_done:
  "completed (scheduleTask z clock t i) \<or> scheduledTime (scheduleTask z clock t i) \<noteq> None"
  by (simp add: scheduleTask_def Let_def)

lemma scheduleTask_idem:
  "scheduleTask z' clock2 (scheduleTask z clock1 t i) j = scheduleTask z clock1 t i"
  using scheduleTask_done [of z clock1 t i] by (rule scheduleTask_kept)

lemma compareTasks_scheduleTask:
  "compareTasks (scheduleTask z clock a i) (scheduleTask z' clock' b j) = compareTasks a b"
  by (rule compareTasks_cong) (simp_all add: scheduleTask_keys)

lemma sortTasksByAI_nth:
  "conformingSort srt \<Longrightarrow> i < length tasks \<Longrightarrow>
   sortTasksByAI srt z clock tasks ! i = scheduleTask z clock (srt compareTasks tasks ! i) i"
  by (simp add: sortTasksByAI_def nth_map_index conformingSort_length)

lemma length_sortTasksByAI:
  "conformingSort srt \<Longrightarrow> length (sortTasksByAI srt z clock tasks) = length tasks"
  by (simp add: sortTasksByAI_def length_map_index conformingSort_length)

section \<open>The claims\<close>

subsection \<open>C1: only incomplete, unscheduled tasks are given a time\<close>

text \<open>
  Claim C1. Whatever sort the engine has and whatever the zone is, the output of
  \<open>sortTasksByAI\<close> is the sorted list, a permutation of the input, with the callback
  applied at every position. A task that is completed or already has a \<open>scheduledTime\<close>
  is at its position of the sorted list with every field as it was; an incomplete task
  without a \<open>scheduledTime\<close> is there with a \<open>scheduledTime\<close> set and every other field as
  it was.
\<close>

theorem sortTasksByAI_frame:
  assumes "conformingSort srt"
  shows
  "mset (srt compareTasks tasks) = mset tasks \<and>
   length (sortTasksByAI srt z clock tasks) = length tasks \<and>
   (\<forall>i < length tasks.
      (completed (srt compareTasks tasks ! i)
         \<or> scheduledTime (srt compareTasks tasks ! i) \<noteq> None \<longrightarrow>
       sortTasksByAI srt z clock tasks ! i = srt compareTasks tasks ! i) \<and>
      (\<not> completed (srt compareTasks tasks ! i)
         \<and> scheduledTime (srt compareTasks tasks ! i) = None \<longrightarrow>
       (\<exists>d. sortTasksByAI srt z clock tasks ! i
              = (srt compareTasks tasks ! i)\<lparr>scheduledTime := Some d\<rparr>)))"
proof (intro conjI allI impI)
  show "mset (srt compareTasks tasks) = mset tasks"
    using assms by (rule conformingSort_mset)
  show "length (sortTasksByAI srt z clock tasks) = length tasks"
    using assms by (rule length_sortTasksByAI)
next
  fix i
  assume "i < length tasks"
    and "completed (srt compareTasks tasks ! i)
         \<or> scheduledTime (srt compareTasks tasks ! i) \<noteq> None"
  then show "sortTasksByAI srt z clock tasks ! i = srt compareTasks tasks ! i"
    using assms by (simp add: sortTasksByAI_nth scheduleTask_kept)
next
  fix i
  assume "i < length tasks"
    and "\<not> completed (srt compareTasks tasks ! i)
         \<and> scheduledTime (srt compareTasks tasks ! i) = None"
  then show "\<exists>d. sortTasksByAI srt z clock tasks ! i
              = (srt compareTasks tasks ! i)\<lparr>scheduledTime := Some d\<rparr>"
    using assms by (auto simp: sortTasksByAI_nth scheduleTask_new)
qed

text \<open>
  Witness for C1: a new task next to the first task of the store, with the insertion
  sort as the engine's. The first task is scheduled already and comes out as it is; the
  new one comes out with a time.
\<close>

theorem sortTasksByAI_frame_witness:
  "conformingSort (insertionSort :: (task \<Rightarrow> task \<Rightarrow> int) \<Rightarrow> task list \<Rightarrow> task list) \<and>
   insertionSort compareTasks [sampleTask ''4'' 5 None, task1] = [task1, sampleTask ''4'' 5 None] \<and>
   (0::nat) < length [sampleTask ''4'' 5 None, task1] \<and>
   scheduledTime task1 \<noteq> None \<and>
   sortTasksByAI insertionSort (fixedZone 0) (fixedClock 1737541800000)
     [sampleTask ''4'' 5 None, task1] ! 0 = task1 \<and>
   (1::nat) < length [sampleTask ''4'' 5 None, task1] \<and>
   \<not> completed (sampleTask ''4'' 5 None) \<and> scheduledTime (sampleTask ''4'' 5 None) = None \<and>
   sortTasksByAI insertionSort (fixedZone 0) (fixedClock 1737541800000)
     [sampleTask ''4'' 5 None, task1] ! 1
     = (sampleTask ''4'' 5 None)\<lparr>scheduledTime := Some 1737558000000\<rparr>"
  using sortTasksByAI_frame [OF conformingSort_insertionSort,
      of "[sampleTask ''4'' 5 None, task1]" "fixedZone 0" "fixedClock 1737541800000"]
    conformingSort_insertionSort [where ?'a = task]
  by (simp add: run_defs date_defs date_consts)

subsection \<open>C2: slots are not kept apart\<close>




subsection \<open>C3: the hour follows from the importance\<close>

text \<open>
  Claim C3. An incomplete task without a \<open>scheduledTime\<close> is given a time whose hour is 9
  when its importance is at least 8, 13 when it is at least 6 and below 8, and 15
  otherwise, with minutes, seconds and milliseconds zero.
\<close>

theorem sortTasksByAI_hour:
  assumes "conformingSort srt"
    and "i < length tasks"
    and "\<not> completed (srt compareTasks tasks ! i)"
    and "scheduledTime (srt compareTasks tasks ! i) = None"
  shows "\<exists>d. scheduledTime (sortTasksByAI srt (fixedZone tza) clock tasks ! i) = Some d \<and>
           importance (sortTasksByAI srt (fixedZone tza) clock tasks ! i)
             = importance (srt compareTasks tasks ! i) \<and>
           getHours (fixedZone tza) d =
             (if importance (srt compareTasks tasks ! i) \<ge> 8 then 9
              else if importance (srt compareTasks tasks ! i) \<ge> 6 then 13
              else 15) \<and>
           getMinutes (fixedZone tza) d = 0 \<and> getSeconds (fixedZone tza) d = 0 \<and>
           getMilliseconds (fixedZone tza) d = 0"
proof -
  let ?z = "fixedZone tza"
  let ?t = "srt compareTasks tasks ! i"
  let ?day = "case dueDate ?t of
                Some due \<Rightarrow> addDays ?z due (- daysBeforeDue (importance ?t))
              | None \<Rightarrow> addDays ?z (clock i) (int (i div 3))"
  let ?d = "setHours ?z ?day (slotHour (importance ?t)) 0 0 0"
  have out: "sortTasksByAI srt ?z clock tasks ! i = ?t\<lparr>scheduledTime := Some ?d\<rparr>"
    using assms by (simp add: sortTasksByAI_nth scheduleTask_new)
  have "getHours ?z ?d = slotHour (importance ?t)"
    using slotHour_range [of "importance ?t"] by (simp add: getHours_setHours)
  then have hour: "getHours ?z ?d =
      (if importance ?t \<ge> 8 then 9 else if importance ?t \<ge> 6 then 13 else 15)"
    by (simp add: slotHour_def)
  have "scheduledTime (sortTasksByAI srt ?z clock tasks ! i) = Some ?d"
    and "importance (sortTasksByAI srt ?z clock tasks ! i) = importance ?t"
    by (simp_all add: out)
  with hour show ?thesis
    using getMinutes_setHours [of tza ?day "slotHour (importance ?t)"]
      getSeconds_setHours [of tza ?day "slotHour (importance ?t)"]
      getMilliseconds_setHours [of tza ?day "slotHour (importance ?t)"]
    by blast
qed

text \<open>
  Witness for C3: new tasks of importance 9, 7 and 3, the second with a due date, in a
  zone one hour ahead of UTC. They are given the hours 9, 13 and 15.
\<close>

theorem sortTasksByAI_hour_witness:
  "conformingSort (insertionSort :: (task \<Rightarrow> task \<Rightarrow> int) \<Rightarrow> task list \<Rightarrow> task list) \<and>
   insertionSort compareTasks
     [sampleTask ''4'' 3 None, sampleTask ''5'' 7 (Some 1737676800000), sampleTask ''6'' 9 None]
   = [sampleTask ''6'' 9 None, sampleTask ''5'' 7 (Some 1737676800000), sampleTask ''4'' 3 None] \<and>
   \<not> completed (sampleTask ''5'' 7 (Some 1737676800000)) \<and>
   scheduledTime (sampleTask ''5'' 7 (Some 1737676800000)) = None \<and>
   map (map_option (getHours (fixedZone 3600000)) \<circ> scheduledTime)
     (sortTasksByAI insertionSort (fixedZone 3600000) (fixedClock 1737541800000)
        [sampleTask ''4'' 3 None, sampleTask ''5'' 7 (Some 1737676800000), sampleTask ''6'' 9 None])
   = [Some 9, Some 13, Some 15] \<and>
   (\<exists>d. scheduledTime
          (sortTasksByAI insertionSort (fixedZone 3600000) (fixedClock 1737541800000)
             [sampleTask ''4'' 3 None, sampleTask ''5'' 7 (Some 1737676800000),
              sampleTask ''6'' 9 None] ! 1) = Some d \<and>
        getHours (fixedZone 3600000) d = 13 \<and> getMinutes (fixedZone 3600000) d = 0 \<and>
        getSeconds (fixedZone 3600000) d = 0 \<and> getMilliseconds (fixedZone 3600000) d = 0)"
  using sortTasksByAI_hour
    [OF conformingSort_insertionSort,
     of 1 "[sampleTask ''4'' 3 None, sampleTask ''5'' 7 (Some 1737676800000),
            sampleTask ''6'' 9 None]" 3600000 "fixedClock 1737541800000"]
    conformingSort_insertionSort [where ?'a = task]
  by (simp add: run_defs date_defs date_consts daysBeforeDue_int)

subsection \<open>C7: the output depends on the clock through the current day only\<close>

text \<open>
  Claim C7. The sort reads no clock, and the callback uses the clock's date only for its
  day. Two runs on the same list in which the clock shows the same day at every reading
  give the same list: the same order and the same fields, \<open>scheduledTime\<close> included.
\<close>

theorem sortTasksByAI_deterministic:
  assumes "conformingSort srt"
    and "\<forall>k. localDay (fixedZone tza) (clock1 k) = localDay (fixedZone tza) (clock2 k)"
  shows "sortTasksByAI srt (fixedZone tza) clock1 tasks
           = sortTasksByAI srt (fixedZone tza) clock2 tasks"
proof (rule nth_equalityI)
  let ?z = "fixedZone tza"
  show "length (sortTasksByAI srt ?z clock1 tasks) = length (sortTasksByAI srt ?z clock2 tasks)"
    using assms(1) by (simp add: length_sortTasksByAI)
  fix i
  assume "i < length (sortTasksByAI srt ?z clock1 tasks)"
  then have i: "i < length tasks" using assms(1) by (simp add: length_sortTasksByAI)
  let ?t = "srt compareTasks tasks ! i"
  have "localDay ?z (addDays ?z (clock1 i) (int (i div 3)))
          = localDay ?z (addDays ?z (clock2 i) (int (i div 3)))"
    using assms(2) by (simp add: localDay_addDays [OF keepsDay_fixedZone])
  then have "setHours ?z (addDays ?z (clock1 i) (int (i div 3))) (slotHour (importance ?t)) 0 0 0
          = setHours ?z (addDays ?z (clock2 i) (int (i div 3))) (slotHour (importance ?t)) 0 0 0"
    by (rule setHours_cong_day)
  then have "scheduleTask ?z clock1 ?t i = scheduleTask ?z clock2 ?t i"
    by (simp add: scheduleTask_def Let_def split: option.split)
  with i show "sortTasksByAI srt ?z clock1 tasks ! i = sortTasksByAI srt ?z clock2 tasks ! i"
    using assms(1) by (simp add: sortTasksByAI_nth)
qed

text \<open>
  Witness for C7: two runs on 22 January 2025, one at 10:30 and one at 18:00, on the three
  tasks of the store and two new ones.
\<close>

theorem sortTasksByAI_deterministic_witness:
  "conformingSort (insertionSort :: (task \<Rightarrow> task \<Rightarrow> int) \<Rightarrow> task list \<Rightarrow> task list) \<and>
   localDay (fixedZone 0) (fixedClock 1737541800000 0)
     = localDay (fixedZone 0) (fixedClock 1737568800000 0) \<and>
   sortTasksByAI insertionSort (fixedZone 0) (fixedClock 1737541800000)
     [task1, task2, task3, sampleTask ''4'' 7 None, sampleTask ''5'' 2 (Some 1737676800000)]
   = sortTasksByAI insertionSort (fixedZone 0) (fixedClock 1737568800000)
     [task1, task2, task3, sampleTask ''4'' 7 None, sampleTask ''5'' 2 (Some 1737676800000)]"
proof -
  have "\<forall>k. localDay (fixedZone 0) (fixedClock 1737541800000 k)
           = localDay (fixedZone 0) (fixedClock 1737568800000 k)"
    by (simp add: fixedClock_def date_defs date_consts)
  then show ?thesis
    using sortTasksByAI_deterministic
        [OF conformingSort_insertionSort, of 0 "fixedClock 1737541800000"
          "fixedClock 1737568800000"]
      conformingSort_insertionSort [where ?'a = task]
    by simp
qed

subsection \<open>C4: days before the due date\<close>



subsection \<open>C8: adding a task\<close>



subsection \<open>C9: updating a task\<close>

text \<open>
  Claim C9. \<open>updateTask\<close> keeps the length of the list and every position. A task whose id
  differs from the given one is as it was. A task with the given id has each field that
  the update holds overwritten and every other field as it was.
\<close>

theorem updateTask_frame:
  "length (updateTask i u tasks) = length tasks \<and>
   (\<forall>k < length tasks.
      (id' (tasks ! k) \<noteq> i \<longrightarrow> updateTask i u tasks ! k = tasks ! k) \<and>
      (id' (tasks ! k) = i \<longrightarrow>
         id' (updateTask i u tasks ! k)
           = (case id_upd u of None \<Rightarrow> id' (tasks ! k) | Some v \<Rightarrow> v) \<and>
         title (updateTask i u tasks ! k)
           = (case title_upd u of None \<Rightarrow> title (tasks ! k) | Some v \<Rightarrow> v) \<and>
         description (updateTask i u tasks ! k)
           = (case description_upd u of None \<Rightarrow> description (tasks ! k) | Some v \<Rightarrow> v) \<and>
         importance (updateTask i u tasks ! k)
           = (case importance_upd u of None \<Rightarrow> importance (tasks ! k) | Some v \<Rightarrow> v) \<and>
         estimatedTime (updateTask i u tasks ! k)
           = (case estimatedTime_upd u of None \<Rightarrow> estimatedTime (tasks ! k) | Some v \<Rightarrow> v) \<and>
         dueDate (updateTask i u tasks ! k)
           = (case dueDate_upd u of None \<Rightarrow> dueDate (tasks ! k) | Some v \<Rightarrow> v) \<and>
         completed (updateTask i u tasks ! k)
           = (case completed_upd u of None \<Rightarrow> completed (tasks ! k) | Some v \<Rightarrow> v) \<and>
         category (updateTask i u tasks ! k)
           = (case category_upd u of None \<Rightarrow> category (tasks ! k) | Some v \<Rightarrow> v) \<and>
         aiSuggested (updateTask i u tasks ! k)
           = (case aiSuggested_upd u of None \<Rightarrow> aiSuggested (tasks ! k) | Some v \<Rightarrow> v) \<and>
         scheduledTime (updateTask i u tasks ! k)
           = (case scheduledTime_upd u of None \<Rightarrow> scheduledTime (tasks ! k) | Some v \<Rightarrow> v)))"
  by (simp add: updateTask_def spread_updates_def)

text \<open>
  Witness for C9: the second task of the store is marked completed, as a click on it does.
\<close>

theorem updateTask_frame_witness:
  "(1::nat) < length [task1, task2, task3] \<and> id' ([task1, task2, task3] ! 1) = ''2'' \<and>
   id' ([task1, task2, task3] ! 0) \<noteq> ''2'' \<and>
   updateTask ''2'' (no_updates\<lparr>completed_upd := Some True\<rparr>) [task1, task2, task3]
     = [task1, task2\<lparr>completed := True\<rparr>, task3]"
  using updateTask_frame [of "''2''" "no_updates\<lparr>completed_upd := Some True\<rparr>"
      "[task1, task2, task3]"]
  by (simp add: updateTask_def spread_updates_def no_updates_def task1_def task2_def task3_def)

subsection \<open>C6: dropping a task on a slot\<close>


lemma getId_handleDragStart: "getId (handleDragStart toISOString t) = Inr (Some (JString (id' t)))"
  by (simp add: handleDragStart_def optionalField_def split: option.split)





subsection \<open>When the comparator of tasks is consistent\<close>

lemma compareTasks_skew: "compareTasks b a = - compareTasks a b"
  by (simp add: compareTasks_def split: option.split)

text \<open>
  The comparator is consistent on a list exactly when no task without a due date has the
  importance of two tasks with different due dates: it ties such a task with both, and
  does not tie the two.
\<close>

lemma consistentOn_compareTasks_iff:
  "consistentOn compareTasks tasks \<longleftrightarrow>
     (\<forall>u \<in> set tasks. \<forall>a \<in> set tasks. \<forall>b \<in> set tasks.
        importance a = importance u \<and> importance b = importance u \<and> dueDate u = None
        \<longrightarrow> dueDate a = None \<or> dueDate b = None \<or> dueDate a = dueDate b)"
  (is "?L \<longleftrightarrow> ?R")
proof
  assume con: ?L
  show ?R
  proof (intro ballI impI)
    fix u a b
    assume u: "u \<in> set tasks" and a: "a \<in> set tasks" and b: "b \<in> set tasks"
      and h: "importance a = importance u \<and> importance b = importance u \<and> dueDate u = None"
    show "dueDate a = None \<or> dueDate b = None \<or> dueDate a = dueDate b"
    proof (rule ccontr)
      assume "\<not> ?thesis"
      then obtain da db where d: "dueDate a = Some da" "dueDate b = Some db" "da \<noteq> db"
        by auto
      have au: "compareTasks a u = 0" and ua: "compareTasks u a = 0"
        and bu: "compareTasks b u = 0" and ub: "compareTasks u b = 0"
        using h by (simp_all add: compareTasks_def split: option.split)
      have "compareTasks a b \<le> 0"
        using consistentOn_trans [OF con a u b] au ub by simp
      moreover have "compareTasks b a \<le> 0"
        using consistentOn_trans [OF con b u a] bu ua by simp
      ultimately show False
        using d h by (simp add: compareTasks_def)
    qed
  qed
next
  assume r: ?R
  show ?L
    unfolding consistentOn_def
  proof (intro conjI ballI impI)
    fix a b
    show "(0 < compareTasks a b) = (compareTasks b a < 0)"
      using compareTasks_skew [of a b] by simp
  next
    fix a b c
    assume a: "a \<in> set tasks" and b: "b \<in> set tasks" and c: "c \<in> set tasks"
      and le: "compareTasks a b \<le> 0 \<and> compareTasks b c \<le> 0"
    then have imp: "importance b \<le> importance a" "importance c \<le> importance b"
      by (auto simp: compareTasks_def split: if_splits)
    show "compareTasks a c \<le> 0"
    proof (cases "importance c = importance a")
      case False
      with imp show ?thesis by (simp add: compareTasks_def)
    next
      case True
      with imp have eq: "importance b = importance a" "importance c = importance b"
        by simp_all
      show ?thesis
      proof (cases "dueDate b")
        case None
        then have "dueDate a = None \<or> dueDate c = None \<or> dueDate a = dueDate c"
          using r a b c eq by auto
        then show ?thesis
          using True by (auto simp: compareTasks_def split: option.split)
      next
        case (Some db)
        with le eq True show ?thesis
          by (auto simp: compareTasks_def split: option.splits)
      qed
    qed
  qed
qed

lemma consistentOn_map_index:
  assumes "consistentOn compareTasks xs"
  shows "consistentOn compareTasks (map_index (scheduleTask z clock) xs)"
proof -
  have el: "\<exists>t i. a = scheduleTask z clock t i \<and> t \<in> set xs"
    if "a \<in> set (map_index (scheduleTask z clock) xs)" for a
  proof -
    from that obtain i where "i < length xs" and "a = map_index (scheduleTask z clock) xs ! i"
      by (auto simp: in_set_conv_nth length_map_index)
    then show ?thesis by (auto simp: nth_map_index)
  qed
  show ?thesis
    unfolding consistentOn_def
  proof (intro conjI ballI impI)
    fix a b
    show "(0 < compareTasks a b) = (compareTasks b a < 0)"
      using compareTasks_skew [of a b] by simp
  next
    fix a b c
    assume ma: "a \<in> set (map_index (scheduleTask z clock) xs)"
      and mb: "b \<in> set (map_index (scheduleTask z clock) xs)"
      and mc: "c \<in> set (map_index (scheduleTask z clock) xs)"
      and le: "compareTasks a b \<le> 0 \<and> compareTasks b c \<le> 0"
    obtain ta i where a: "a = scheduleTask z clock ta i" "ta \<in> set xs"
      using el [OF ma] by blast
    obtain tb j where b: "b = scheduleTask z clock tb j" "tb \<in> set xs"
      using el [OF mb] by blast
    obtain tc k where c: "c = scheduleTask z clock tc k" "tc \<in> set xs"
      using el [OF mc] by blast
    have "compareTasks ta tb \<le> 0" and "compareTasks tb tc \<le> 0"
      using le a b c by (simp_all add: compareTasks_scheduleTask)
    then have "compareTasks ta tc \<le> 0"
      using consistentOn_trans [OF assms a(2) b(2) c(2)] by simp
    then show "compareTasks a c \<le> 0"
      using a c by (simp add: compareTasks_scheduleTask)
  qed
qed

lemma sorted_map_index:
  assumes "sorted_wrt (\<lambda>a b. compareTasks a b \<le> 0) xs"
  shows "sorted_wrt (\<lambda>a b. compareTasks a b \<le> 0) (map_index (scheduleTask z clock) xs)"
  using assms
  by (simp add: sorted_wrt_iff_nth_less length_map_index nth_map_index compareTasks_scheduleTask)

subsection \<open>C10: a second run\<close>

text \<open>
  Claim C10 says that a second run changes nothing, for every list. Take five new tasks
  of importance 5: without a due date, due on 30 January, without a due date, due on 24
  January, due on 24 January. The comparator is not consistent on them, and an engine
  that sorts by merging from the bottom up puts them in one order in the first run and
  in another in the second.
\<close>

theorem sortTasksByAI_idempotent_counterexample:
  "conformingSort (mergeSort :: (task \<Rightarrow> task \<Rightarrow> int) \<Rightarrow> task list \<Rightarrow> task list) \<and>
   map id' (sortTasksByAI mergeSort (fixedZone 0) (fixedClock 1737541800000)
     [sampleTask ''4'' 5 None, sampleTask ''5'' 5 (Some 1738195200000), sampleTask ''6'' 5 None,
      sampleTask ''7'' 5 (Some 1737676800000), sampleTask ''8'' 5 (Some 1737676800000)])
   = [''4'', ''8'', ''5'', ''6'', ''7''] \<and>
   map id' (sortTasksByAI mergeSort (fixedZone 0) (fixedClock 1737541800000)
     (sortTasksByAI mergeSort (fixedZone 0) (fixedClock 1737541800000)
       [sampleTask ''4'' 5 None, sampleTask ''5'' 5 (Some 1738195200000), sampleTask ''6'' 5 None,
        sampleTask ''7'' 5 (Some 1737676800000), sampleTask ''8'' 5 (Some 1737676800000)]))
   = [''4'', ''8'', ''7'', ''5'', ''6''] \<and>
   sortTasksByAI mergeSort (fixedZone 0) (fixedClock 1737541800000)
     (sortTasksByAI mergeSort (fixedZone 0) (fixedClock 1737541800000)
       [sampleTask ''4'' 5 None, sampleTask ''5'' 5 (Some 1738195200000), sampleTask ''6'' 5 None,
        sampleTask ''7'' 5 (Some 1737676800000), sampleTask ''8'' 5 (Some 1737676800000)])
   \<noteq> sortTasksByAI mergeSort (fixedZone 0) (fixedClock 1737541800000)
       [sampleTask ''4'' 5 None, sampleTask ''5'' 5 (Some 1738195200000), sampleTask ''6'' 5 None,
        sampleTask ''7'' 5 (Some 1737676800000), sampleTask ''8'' 5 (Some 1737676800000)]"
  using conformingSort_mergeSort [where ?'a = task]
  by (simp add: run_defs mergeSort_def date_defs date_consts)

text \<open>
  Claim C10 as amended. On a list on which the comparator is consistent (no task without
  a due date has the importance of two tasks with different due dates), a second run
  changes nothing, whatever sort the engine has and whatever the clocks show: after one
  run the list is in the comparator's order, so it is sorted into itself, and every task
  is completed or carries a \<open>scheduledTime\<close>, so none is scheduled again. For the other
  lists the second run is left to the engine's sort.
\<close>

theorem sortTasksByAI_idempotent:
  assumes "conformingSort srt" and "consistentOn compareTasks tasks"
  shows "sortTasksByAI srt z clock2 (sortTasksByAI srt z clock1 tasks)
           = sortTasksByAI srt z clock1 tasks"
proof -
  let ?s = "srt compareTasks tasks"
  let ?out = "sortTasksByAI srt z clock1 tasks"
  have out: "?out = map_index (scheduleTask z clock1) ?s"
    by (simp add: sortTasksByAI_def)
  have "consistentOn compareTasks ?s"
    using assms(2) by (rule consistentOn_subset) (simp add: conformingSort_set assms(1))
  then have con: "consistentOn compareTasks ?out"
    unfolding out by (rule consistentOn_map_index)
  have "sorted_wrt (\<lambda>a b. compareTasks a b \<le> 0) ?s"
    using assms by (rule conformingSort_sorted)
  then have "sorted_wrt (\<lambda>a b. compareTasks a b \<le> 0) ?out"
    unfolding out by (rule sorted_map_index)
  with assms(1) con have sorted: "srt compareTasks ?out = ?out"
    by (rule conformingSort_sorted_id)
  show ?thesis
  proof (rule nth_equalityI)
    show "length (sortTasksByAI srt z clock2 ?out) = length ?out"
      using assms(1) by (rule length_sortTasksByAI)
  next
    fix i
    assume "i < length (sortTasksByAI srt z clock2 ?out)"
    then have i: "i < length ?out" using assms(1) by (simp add: length_sortTasksByAI)
    then have i': "i < length tasks" using assms(1) by (simp add: length_sortTasksByAI)
    have "sortTasksByAI srt z clock2 ?out ! i = scheduleTask z clock2 (?out ! i) i"
      using i assms(1) by (simp add: sortTasksByAI_nth sorted)
    also have "\<dots> = ?out ! i"
      using i' assms(1) by (simp add: sortTasksByAI_nth scheduleTask_idem)
    finally show "sortTasksByAI srt z clock2 ?out ! i = ?out ! i" .
  qed
qed

text \<open>
  Witness for the amended C10: two new tasks of importance 5 with due dates and one of
  importance 7 without, run on 22 January and again a day later.
\<close>

theorem sortTasksByAI_idempotent_witness:
  "conformingSort (insertionSort :: (task \<Rightarrow> task \<Rightarrow> int) \<Rightarrow> task list \<Rightarrow> task list) \<and>
   consistentOn compareTasks
     [sampleTask ''4'' 5 (Some 1738195200000), sampleTask ''5'' 5 (Some 1737676800000),
      sampleTask ''6'' 7 None] \<and>
   map id' (sortTasksByAI insertionSort (fixedZone 0) (fixedClock 1737541800000)
     [sampleTask ''4'' 5 (Some 1738195200000), sampleTask ''5'' 5 (Some 1737676800000),
      sampleTask ''6'' 7 None]) = [''6'', ''5'', ''4''] \<and>
   sortTasksByAI insertionSort (fixedZone 0) (fixedClock 1737628200000)
     (sortTasksByAI insertionSort (fixedZone 0) (fixedClock 1737541800000)
        [sampleTask ''4'' 5 (Some 1738195200000), sampleTask ''5'' 5 (Some 1737676800000),
         sampleTask ''6'' 7 None])
   = sortTasksByAI insertionSort (fixedZone 0) (fixedClock 1737541800000)
        [sampleTask ''4'' 5 (Some 1738195200000), sampleTask ''5'' 5 (Some 1737676800000),
         sampleTask ''6'' 7 None]"
proof -
  have con: "consistentOn compareTasks
     [sampleTask ''4'' 5 (Some 1738195200000), sampleTask ''5'' 5 (Some 1737676800000),
      sampleTask ''6'' 7 None]"
    by (simp add: consistentOn_compareTasks_iff sampleTask_def)
  have ids: "map id' (sortTasksByAI insertionSort (fixedZone 0) (fixedClock 1737541800000)
     [sampleTask ''4'' 5 (Some 1738195200000), sampleTask ''5'' 5 (Some 1737676800000),
      sampleTask ''6'' 7 None]) = [''6'', ''5'', ''4'']"
    by (simp add: run_defs)
  show ?thesis
    using sortTasksByAI_idempotent [OF conformingSort_insertionSort con,
        of "fixedZone 0" "fixedClock 1737628200000" "fixedClock 1737541800000"]
      conformingSort_insertionSort [where ?'a = task] con ids
    by simp
qed

subsection \<open>C5: tasks without a due date\<close>

text \<open>
  The rule of the days: an incomplete, unscheduled task without a due date at position
  \<open>i\<close> of the sorted list is scheduled \<open>i div 3\<close> days after the day the clock shows.
\<close>

lemma sortTasksByAI_undated_day:
  assumes "conformingSort srt" and "keepsDay z" and "i < length tasks"
    and "\<not> completed (srt compareTasks tasks ! i)"
    and "scheduledTime (srt compareTasks tasks ! i) = None"
    and "dueDate (srt compareTasks tasks ! i) = None"
  shows "\<exists>d. scheduledTime (sortTasksByAI srt z clock tasks ! i) = Some d \<and>
           localDay z d = localDay z (clock i) + int (i div 3)"
proof -
  let ?t = "srt compareTasks tasks ! i"
  let ?d = "setHours z (addDays z (clock i) (int (i div 3))) (slotHour (importance ?t)) 0 0 0"
  have "scheduledTime (sortTasksByAI srt z clock tasks ! i) = Some ?d"
    using assms by (simp add: sortTasksByAI_nth scheduleTask_new)
  moreover have "localDay z ?d = localDay z (clock i) + int (i div 3)"
    using slotHour_range [of "importance ?t"] assms(2)
    by (simp add: localDay_setHours localDay_addDays)
  ultimately show ?thesis by blast
qed







text \<open>
  On a list on which the comparator is not consistent, the position of a task without a
  due date, and with it the day it is given, depends on the engine's sort. Of the five
  tasks of the counterexample to C10, the task \<open>6\<close> is at position 2 and scheduled on the
  current day, 22 January, with the insertion sort, and at position 3 and scheduled a
  day later with the merge sort.
\<close>

lemma undated_day_depends_on_sort:
  "map id' (sortTasksByAI insertionSort (fixedZone 0) (fixedClock 1737541800000)
     [sampleTask ''4'' 5 None, sampleTask ''5'' 5 (Some 1738195200000), sampleTask ''6'' 5 None,
      sampleTask ''7'' 5 (Some 1737676800000), sampleTask ''8'' 5 (Some 1737676800000)])
   = [''4'', ''5'', ''6'', ''7'', ''8''] \<and>
   scheduledTime (sortTasksByAI insertionSort (fixedZone 0) (fixedClock 1737541800000)
     [sampleTask ''4'' 5 None, sampleTask ''5'' 5 (Some 1738195200000), sampleTask ''6'' 5 None,
      sampleTask ''7'' 5 (Some 1737676800000), sampleTask ''8'' 5 (Some 1737676800000)] ! 2)
   = Some 1737558000000 \<and>
   map id' (sortTasksByAI mergeSort (fixedZone 0) (fixedClock 1737541800000)
     [sampleTask ''4'' 5 None, sampleTask ''5'' 5 (Some 1738195200000), sampleTask ''6'' 5 None,
      sampleTask ''7'' 5 (Some 1737676800000), sampleTask ''8'' 5 (Some 1737676800000)])
   = [''4'', ''8'', ''5'', ''6'', ''7''] \<and>
   scheduledTime (sortTasksByAI mergeSort (fixedZone 0) (fixedClock 1737541800000)
     [sampleTask ''4'' 5 None, sampleTask ''5'' 5 (Some 1738195200000), sampleTask ''6'' 5 None,
      sampleTask ''7'' 5 (Some 1737676800000), sampleTask ''8'' 5 (Some 1737676800000)] ! 3)
   = Some 1737644400000"
  by (simp add: run_defs mergeSort_def date_defs date_consts)

end
